theory Spec2Isabelle
  imports Complex_Main "HOL-Library.Char_ord" "HOL-Library.List_Lexorder"
    "HOL-Library.Multiset" "HOL-Library.Monad_Syntax"
begin

section \<open>The timetable optimizer of \<^verbatim>\<open>scrapping_scripts/optimal.py\<close>\<close>

text \<open>
  The development embeds the class \<^verbatim>\<open>TimetableOptimizer\<close>. Conventions:
  \<^item> a Python \<^verbatim>\<open>str\<close> is a \<open>string\<close>; the texts are taken to be ASCII, so that
    \<^verbatim>\<open>lower()\<close>, slicing and comparison act on characters one by one;
  \<^item> a Python \<^verbatim>\<open>int\<close> is an \<open>int\<close>; a Python \<^verbatim>\<open>float\<close> is a \<open>real\<close>, extended by
    the value \<^verbatim>\<open>float('-inf')\<close> where the source uses it. The scoring functions are
    written with exact arithmetic: the rounding of double precision is not modelled, so
    their values may differ from the computed ones in the last digit. The search
    therefore takes the scoring function as a parameter, and what is proved of the
    search holds for every scoring function, the exact one and the computed one alike;
  \<^item> a raised \<^verbatim>\<open>ValueError\<close> (the only exception the modelled code can raise on
    inputs of the right shape) is the result \<open>None\<close>;
  \<^item> a \<^verbatim>\<open>dict\<close> is an association list in insertion order.
\<close>

subsection \<open>Data model\<close>

text \<open>The keys of an activity dictionary that the optimizer reads.\<close>

record activity =
  subject_code :: string
  activity_group_code :: string
  activity_code :: string
  day_of_week :: string
  start_time :: string
  duration :: string

text \<open>
  One entry of \<^verbatim>\<open>data['subjects']\<close>: its \<^verbatim>\<open>'subject_code'\<close> and its
  \<^verbatim>\<open>'activities'\<close> dictionary (key, activity) in insertion order.
\<close>

record subject =
  subj_code :: string
  subj_activities :: "(string \<times> activity) list"

text \<open>
  \<^verbatim>\<open>data['optimization']\<close>: \<^verbatim>\<open>timeRestrictions['start']\<close>,
  \<^verbatim>\<open>timeRestrictions['end']\<close> (hours) and \<^verbatim>\<open>avoidDays\<close>. The \<^verbatim>\<open>preferences\<close>
  toggles are never read by the class and are left out.
\<close>

record optimization =
  tr_start :: int
  tr_end :: int
  avoidDays :: "string list"

text \<open>A Python float as the search uses it: \<^verbatim>\<open>float('-inf')\<close> or a finite number.\<close>

datatype pyfloat = NegInf | Fin real

text \<open>The comparison \<^verbatim>\<open>a > b\<close> on floats.\<close>

fun float_gt :: "pyfloat \<Rightarrow> pyfloat \<Rightarrow> bool" where
  "float_gt (Fin a) (Fin b) = (a > b)"
| "float_gt (Fin a) NegInf = True"
| "float_gt NegInf b = False"

subsection \<open>Strings\<close>

text \<open>
  \<^verbatim>\<open>str.lower()\<close> on ASCII text: a capital letter \<open>A\<close>..\<open>Z\<close> (codes 65..90) moves to
  its code plus 32, which sets bit 5 of the code (clear in all of 65..90); any other
  character stays.
\<close>

fun lower_char :: "char \<Rightarrow> char" where
  "lower_char (Char b0 b1 b2 b3 b4 b5 b6 b7) =
     (if CHR ''A'' \<le> Char b0 b1 b2 b3 b4 b5 b6 b7 \<and> Char b0 b1 b2 b3 b4 b5 b6 b7 \<le> CHR ''Z''
      then Char b0 b1 b2 b3 b4 True b6 b7
      else Char b0 b1 b2 b3 b4 b5 b6 b7)"

definition lower :: "string \<Rightarrow> string" where
  "lower s = map lower_char s"

text \<open>\<^verbatim>\<open>s.split(':')\<close>: the pieces between the separators, never an empty list.\<close>

fun split_on :: "char \<Rightarrow> string \<Rightarrow> string list" where
  "split_on sep [] = [[]]"
| "split_on sep (c # cs) =
     (if c = sep then [] # split_on sep cs
      else (case split_on sep cs of
              p # ps \<Rightarrow> (c # p) # ps
            | [] \<Rightarrow> [[c]]))"

definition is_digit :: "char \<Rightarrow> bool" where
  "is_digit c = (CHR ''0'' \<le> c \<and> c \<le> CHR ''9'')"

definition digit_val :: "char \<Rightarrow> int" where
  "digit_val c = int (of_char c) - 48"

definition digits_val :: "string \<Rightarrow> int" where
  "digits_val s = foldl (\<lambda>acc c. acc * 10 + digit_val c) 0 s"

text \<open>
  \<^verbatim>\<open>int(s)\<close> on a string: an optional sign followed by one or more decimal digits
  gives the number, anything else is \<^verbatim>\<open>ValueError\<close>. (Python also accepts
  surrounding blanks, underscores between digits and non-ASCII digits; such strings are
  outside this model. No theorem below depends on a string being rejected.)
\<close>

definition py_int :: "string \<Rightarrow> int option" where
  "py_int s =
     (case s of
        [] \<Rightarrow> None
      | c # r \<Rightarrow>
          (if c = CHR ''-'' then
             (if r \<noteq> [] \<and> list_all is_digit r then Some (- digits_val r) else None)
           else if c = CHR ''+'' then
             (if r \<noteq> [] \<and> list_all is_digit r then Some (digits_val r) else None)
           else
             (if list_all is_digit s then Some (digits_val s) else None)))"

subsection \<open>Preference scorer\<close>

text \<open>
  \<^verbatim>\<open>time_to_minutes\<close>: \<^verbatim>\<open>hours, minutes = map(int, time_str.split(':'))\<close> raises
  unless there are exactly two pieces and both are integers.
\<close>

definition time_to_minutes :: "string \<Rightarrow> int option" where
  "time_to_minutes time_str =
     (case split_on CHR '':'' time_str of
        [h, m] \<Rightarrow> do {
          hours \<leftarrow> py_int h;
          minutes \<leftarrow> py_int m;
          Some (hours * 60 + minutes)
        }
      | _ \<Rightarrow> None)"

definition score_avoid_days :: "optimization \<Rightarrow> activity \<Rightarrow> real" where
  "score_avoid_days opt activity =
     (let avoid_days = map (\<lambda>day. take 3 (lower day)) (avoidDays opt);
          activity_day = take 3 (lower (day_of_week activity))
      in if activity_day \<in> set avoid_days then 0 else 1)"

definition score_time_restrictions :: "optimization \<Rightarrow> activity \<Rightarrow> real option" where
  "score_time_restrictions opt activity = do {
     start \<leftarrow> time_to_minutes (start_time activity);
     dur \<leftarrow> py_int (duration activity);
     let end_time = start + dur;
     let allowed_start = tr_start opt * 60;
     let allowed_end = tr_end opt * 60;
     let start_deviation = max 0 (allowed_start - start) + max 0 (start - allowed_end);
     let end_deviation = max 0 (allowed_start - end_time) + max 0 (end_time - allowed_end);
     let total_deviation = start_deviation + end_deviation;
     let max_possible_deviation = 24 * 60;
     Some (1 - real_of_int total_deviation / real_of_int max_possible_deviation)
   }"

definition check_clash :: "activity \<Rightarrow> activity \<Rightarrow> bool option" where
  "check_clash activity1 activity2 =
     (if day_of_week activity1 \<noteq> day_of_week activity2 then Some False
      else do {
        start1 \<leftarrow> time_to_minutes (start_time activity1);
        dur1 \<leftarrow> py_int (duration activity1);
        let end1 = start1 + dur1;
        start2 \<leftarrow> time_to_minutes (start_time activity2);
        dur2 \<leftarrow> py_int (duration activity2);
        let end2 = start2 + dur2;
        Some (\<not> (end1 \<le> start2 \<or> end2 \<le> start1))
      })"

text \<open>
  \<^verbatim>\<open>sum(f(activity) for activity in activities)\<close> where \<open>f\<close> may raise: the running
  total starts at 0 and the first exception ends the loop.
\<close>

fun sum_scores :: "(activity \<Rightarrow> real option) \<Rightarrow> real \<Rightarrow> activity list \<Rightarrow> real option" where
  "sum_scores f acc [] = Some acc"
| "sum_scores f acc (a # as) = do { x \<leftarrow> f a; sum_scores f (acc + x) as }"

text \<open>
  The two nested \<^verbatim>\<open>for\<close> loops that count clashes:
  \<^verbatim>\<open>for i in range(n): for j in range(i + 1, n): if check_clash(..): clash_count += 1\<close>.
\<close>

fun clash_inner :: "activity list \<Rightarrow> nat \<Rightarrow> nat list \<Rightarrow> nat \<Rightarrow> nat option" where
  "clash_inner activities i [] clash_count = Some clash_count"
| "clash_inner activities i (j # js) clash_count = do {
     b \<leftarrow> check_clash (activities ! i) (activities ! j);
     clash_inner activities i js (if b then clash_count + 1 else clash_count)
   }"

fun clash_outer :: "activity list \<Rightarrow> nat list \<Rightarrow> nat \<Rightarrow> nat option" where
  "clash_outer activities [] clash_count = Some clash_count"
| "clash_outer activities (i # is) clash_count = do {
     c \<leftarrow> clash_inner activities i [i + 1 ..< length activities] clash_count;
     clash_outer activities is c
   }"

definition count_clashes :: "activity list \<Rightarrow> nat option" where
  "count_clashes activities = clash_outer activities [0 ..< length activities] 0"

definition score_activity_combination :: "optimization \<Rightarrow> activity list \<Rightarrow> pyfloat option" where
  "score_activity_combination opt activities =
     (if activities = [] then Some NegInf
      else do {
        let n = length activities;
        let avoid_days_score =
              foldl (\<lambda>acc activity. acc + score_avoid_days opt activity) 0 activities / real n;
        time_sum \<leftarrow> sum_scores (score_time_restrictions opt) 0 activities;
        let time_score = time_sum / real n;
        let total_possible_clashes = (real n * (real n - 1)) / 2;
        clash_score \<leftarrow>
          (if total_possible_clashes > 0 then do {
             clash_count \<leftarrow> count_clashes activities;
             Some (1 - real clash_count / total_possible_clashes)
           } else Some 1);
        Some (Fin (0.5 * avoid_days_score + 0.3 * time_score + 0.2 * clash_score))
      })"

subsection \<open>Catalog indexer\<close>

text \<open>
  A \<^verbatim>\<open>defaultdict\<close> whose missing entries are empty (an empty list, or an empty inner
  dictionary): reading a key, and storing under a key. A stored key keeps its place; a
  new key goes to the end.
\<close>

definition od_get :: "('k \<times> 'v list) list \<Rightarrow> 'k \<Rightarrow> 'v list" where
  "od_get d k = (case map_of d k of None \<Rightarrow> [] | Some v \<Rightarrow> v)"

fun od_set :: "('k \<times> 'v) list \<Rightarrow> 'k \<Rightarrow> 'v \<Rightarrow> ('k \<times> 'v) list" where
  "od_set [] k v = [(k, v)]"
| "od_set ((k', v') # d) k v = (if k' = k then (k, v) # d else (k', v') # od_set d k v)"

type_synonym groups = "(string \<times> activity list) list"
type_synonym index = "(string \<times> groups) list"

text \<open>
  \<^verbatim>\<open>subject_activities[subject_code][group_code].append(activity)\<close>, the subject
  code being the variable \<open>scode\<close> (the name \<open>subject_code\<close> is the field of an activity).
\<close>

definition add_activity :: "string \<Rightarrow> index \<Rightarrow> activity \<Rightarrow> index" where
  "add_activity scode subject_activities activity =
     (let group_code = activity_group_code activity;
          activity_groups = od_get subject_activities scode;
          activities = od_get activity_groups group_code
      in od_set subject_activities scode
           (od_set activity_groups group_code (activities @ [activity])))"

definition get_subject_activities :: "subject list \<Rightarrow> index" where
  "get_subject_activities subjects =
     foldl (\<lambda>subject_activities subject.
              foldl (add_activity (subj_code subject)) subject_activities
                (map snd (subj_activities subject)))
       [] subjects"

subsection \<open>Combination search\<close>

text \<open>
  The two \<^verbatim>\<open>nonlocal\<close> variables of \<^verbatim>\<open>optimize_timetable\<close>. The third field is not
  in the source: it records, in call order, the argument of every call of
  \<^verbatim>\<open>score_activity_combination\<close> that returned, and is never read by the search.
\<close>

record search_state =
  best_combination :: "activity list"
  best_score :: pyfloat
  scored :: "activity list list"

text \<open>
  \<^verbatim>\<open>try_subject_combinations(subject_codes, current_idx, current_selection)\<close> is
  called here with the codes still to process, \<^verbatim>\<open>subject_codes[current_idx:]\<close>, and
  \<^verbatim>\<open>try_group_combinations\<close> with \<^verbatim>\<open>group_codes[group_idx:]\<close>; the variables of the
  enclosing calls that the inner function reads are passed along. \<open>try_activities\<close> is
  the \<^verbatim>\<open>for activity in activities\<close> loop: \<^verbatim>\<open>append\<close>, the recursive call and
  \<^verbatim>\<open>pop\<close> leave \<^verbatim>\<open>subject_selection\<close> as it was, so each round extends the same list.

  The first argument \<open>scorer\<close> is the method \<^verbatim>\<open>self.score_activity_combination\<close> that
  the base case calls: the search only calls it and compares its results with
  \<^verbatim>\<open>score > best_score\<close>.
\<close>

function try_subject_combinations ::
      "(activity list \<Rightarrow> pyfloat option) \<Rightarrow> index \<Rightarrow> string list \<Rightarrow> activity list \<Rightarrow>
       search_state \<Rightarrow> search_state option"
  and try_group_combinations ::
      "(activity list \<Rightarrow> pyfloat option) \<Rightarrow> index \<Rightarrow> string list \<Rightarrow> activity list \<Rightarrow>
       groups \<Rightarrow> string list \<Rightarrow> activity list \<Rightarrow> search_state \<Rightarrow> search_state option"
  and try_activities ::
      "(activity list \<Rightarrow> pyfloat option) \<Rightarrow> index \<Rightarrow> string list \<Rightarrow> activity list \<Rightarrow>
       groups \<Rightarrow> string list \<Rightarrow> activity list \<Rightarrow> activity list \<Rightarrow> search_state \<Rightarrow>
       search_state option"
where
  "try_subject_combinations scorer sa [] current_selection st =
     (case scorer current_selection of
        None \<Rightarrow> None
      | Some score \<Rightarrow>
          (let st' = st\<lparr>scored := scored st @ [current_selection]\<rparr>
           in if float_gt score (best_score st')
              then Some (st'\<lparr>best_score := score, best_combination := current_selection\<rparr>)
              else Some st'))"
| "try_subject_combinations scorer sa (scode # rest) current_selection st =
     (let activity_groups = od_get sa scode;
          group_codes = map fst activity_groups
      in try_group_combinations scorer sa rest current_selection activity_groups group_codes []
           st)"
| "try_group_combinations scorer sa rest current_selection activity_groups [] subject_selection
       st =
     (let combined_selection = current_selection @ subject_selection
      in try_subject_combinations scorer sa rest combined_selection st)"
| "try_group_combinations scorer sa rest current_selection activity_groups (group_code # gs)
       subject_selection st =
     (let activities = od_get activity_groups group_code
      in try_activities scorer sa rest current_selection activity_groups gs subject_selection
           activities st)"
| "try_activities scorer sa rest current_selection activity_groups gs subject_selection [] st =
     Some st"
| "try_activities scorer sa rest current_selection activity_groups gs subject_selection
       (activity # acts) st =
     (case try_group_combinations scorer sa rest current_selection activity_groups gs
             (subject_selection @ [activity]) st of
        None \<Rightarrow> None
      | Some st' \<Rightarrow>
          try_activities scorer sa rest current_selection activity_groups gs subject_selection
            acts st')"
  by pat_completeness auto
termination
  by (relation "measures
        [\<lambda>x. case x of
               Inl (scorer, sa, codes, r) \<Rightarrow> 2 * length codes
             | Inr (Inl (scorer, sa, rest, r)) \<Rightarrow> 2 * length rest + 1
             | Inr (Inr (scorer, sa, rest, r)) \<Rightarrow> 2 * length rest + 1,
         \<lambda>x. case x of
               Inl r \<Rightarrow> 0
             | Inr (Inl (scorer, sa, rest, cur, ag, gs, r)) \<Rightarrow> 2 * length gs + 1
             | Inr (Inr (scorer, sa, rest, cur, ag, gs, r)) \<Rightarrow> 2 * length gs + 2,
         \<lambda>x. case x of
               Inl r \<Rightarrow> 0
             | Inr (Inl r) \<Rightarrow> 0
             | Inr (Inr (scorer, sa, rest, cur, ag, gs, ssel, acts, r)) \<Rightarrow> length acts]")
     auto

text \<open>
  The state when the search starts, and the body of \<^verbatim>\<open>optimize_timetable\<close> for a given
  scoring method: the final state of the search, and the best combination it returns.
\<close>

definition initial_state :: search_state where
  "initial_state = \<lparr>best_combination = [], best_score = NegInf, scored = []\<rparr>"

definition search_with ::
    "(activity list \<Rightarrow> pyfloat option) \<Rightarrow> subject list \<Rightarrow> search_state option" where
  "search_with scorer subjects =
     (let subject_activities = get_subject_activities subjects;
          subject_codes = map fst subject_activities
      in try_subject_combinations scorer subject_activities subject_codes [] initial_state)"

definition optimize_timetable_with ::
    "(activity list \<Rightarrow> pyfloat option) \<Rightarrow> subject list \<Rightarrow> activity list option" where
  "optimize_timetable_with scorer subjects =
     map_option best_combination (search_with scorer subjects)"

text \<open>The search with the scoring method written in exact arithmetic.\<close>

definition run_search :: "optimization \<Rightarrow> subject list \<Rightarrow> search_state option" where
  "run_search opt subjects = search_with (score_activity_combination opt) subjects"

definition optimize_timetable :: "optimization \<Rightarrow> subject list \<Rightarrow> activity list option" where
  "optimize_timetable opt subjects = map_option best_combination (run_search opt subjects)"

subsection \<open>Result formatter\<close>

definition format_activity :: "activity \<Rightarrow> string" where
  "format_activity activity =
     subject_code activity @ '' | '' @ activity_group_code activity @ '' | ''
     @ ''Activity '' @ activity_code activity @ '' | ''
     @ day_of_week activity @ '' '' @ start_time activity
     @ '' ('' @ duration activity @ '' mins)''"

definition format_output :: "activity list \<Rightarrow> string list" where
  "format_output selected_activities = sort (map format_activity selected_activities)"

text \<open>The module-level function \<^verbatim>\<open>optimize_timetable(input_data)\<close>.\<close>

definition optimize_timetable_lines :: "optimization \<Rightarrow> subject list \<Rightarrow> string list option" where
  "optimize_timetable_lines opt subjects =
     map_option format_output (optimize_timetable opt subjects)"

section \<open>Notions of the specification\<close>

subsection \<open>The catalog and its complete schedules\<close>

text \<open>
  The catalog as a flat list: every activity with the code of the subject entry that
  lists it, in iteration order.
\<close>

definition tagged :: "subject list \<Rightarrow> (string \<times> activity) list" where
  "tagged subjects =
     concat (map (\<lambda>sub. map (\<lambda>ka. (subj_code sub, snd ka)) (subj_activities sub)) subjects)"

text \<open>The distinct elements of a list, in the order of their first occurrence.\<close>

definition first_occ :: "'a list \<Rightarrow> 'a list" where
  "first_occ xs = foldl (\<lambda>acc x. if x \<in> set acc then acc else acc @ [x]) [] xs"

text \<open>
  Catalog order: the subject codes in order of first appearance; for a subject, its
  activities and its group codes in order of first appearance; for a group, its
  candidate activities in the order listed.
\<close>

definition subject_codes_of :: "(string \<times> activity) list \<Rightarrow> string list" where
  "subject_codes_of T = first_occ (map fst T)"

definition activities_of :: "(string \<times> activity) list \<Rightarrow> string \<Rightarrow> activity list" where
  "activities_of T s = map snd (filter (\<lambda>sa. fst sa = s) T)"

definition group_codes_of :: "(string \<times> activity) list \<Rightarrow> string \<Rightarrow> string list" where
  "group_codes_of T s = first_occ (map activity_group_code (activities_of T s))"

definition candidates :: "(string \<times> activity) list \<Rightarrow> string \<Rightarrow> string \<Rightarrow> activity list" where
  "candidates T s g = filter (\<lambda>a. activity_group_code a = g) (activities_of T s)"

text \<open>What the indexer is to produce: subject code to group code to candidates.\<close>

definition index_of :: "(string \<times> activity) list \<Rightarrow> index" where
  "index_of T =
     map (\<lambda>s. (s, map (\<lambda>g. (g, candidates T s g)) (group_codes_of T s))) (subject_codes_of T)"

text \<open>
  The (subject code, group code) pairs of the catalog, the candidate lists of these
  groups, and the complete schedules: one candidate from each group, the choice in the
  first group varying slowest.
\<close>

definition catalog_keys :: "(string \<times> activity) list \<Rightarrow> (string \<times> string) list" where
  "catalog_keys T = concat (map (\<lambda>s. map (Pair s) (group_codes_of T s)) (subject_codes_of T))"

definition catalog_groups :: "(string \<times> activity) list \<Rightarrow> activity list list" where
  "catalog_groups T = map (\<lambda>(s, g). candidates T s g) (catalog_keys T)"

definition complete_schedules :: "subject list \<Rightarrow> activity list list" where
  "complete_schedules subjects = product_lists (catalog_groups (tagged subjects))"

text \<open>
  A validated catalog: the start time and the duration of every activity are numbers
  (otherwise scoring raises). In a catalog with consistent codes every activity carries
  the code of the subject entry that lists it.
\<close>

definition parses :: "activity \<Rightarrow> bool" where
  "parses a \<longleftrightarrow> time_to_minutes (start_time a) \<noteq> None \<and> py_int (duration a) \<noteq> None"

definition valid_catalog :: "subject list \<Rightarrow> bool" where
  "valid_catalog subjects = list_all (\<lambda>p. parses (snd p)) (tagged subjects)"

definition consistent_codes :: "subject list \<Rightarrow> bool" where
  "consistent_codes subjects = list_all (\<lambda>p. subject_code (snd p) = fst p) (tagged subjects)"

subsection \<open>Scores\<close>

text \<open>
  The symbolic weekday that a day string stands for, as the scorer reads it: its first
  three characters in lower case (\<^verbatim>\<open>.lower()[:3]\<close>).
\<close>

definition weekday :: "string \<Rightarrow> string" where
  "weekday day = take 3 (lower day)"

definition mean :: "real list \<Rightarrow> real" where
  "mean xs = sum_list xs / real (length xs)"

text \<open>The unordered pairs of positions of a list of length \<open>n\<close>, each as \<open>(i, j)\<close> with \<open>i < j\<close>.\<close>

definition index_pairs :: "nat \<Rightarrow> (nat \<times> nat) list" where
  "index_pairs n = filter (\<lambda>(i, j). i < j) (List.product [0 ..< n] [0 ..< n])"

definition clashing_pairs :: "activity list \<Rightarrow> (nat \<times> nat) list" where
  "clashing_pairs acts =
     filter (\<lambda>(i, j). check_clash (acts ! i) (acts ! j) = Some True) (index_pairs (length acts))"

definition clash_score :: "activity list \<Rightarrow> real" where
  "clash_score acts =
     (if length acts < 2 then 1
      else 1 - real (length (clashing_pairs acts)) / real (length (index_pairs (length acts))))"

definition time_window_score :: "optimization \<Rightarrow> activity \<Rightarrow> real" where
  "time_window_score opt a = the (score_time_restrictions opt a)"

definition combined_score :: "optimization \<Rightarrow> activity list \<Rightarrow> real" where
  "combined_score opt acts =
     0.5 * mean (map (score_avoid_days opt) acts)
     + 0.3 * mean (map (time_window_score opt) acts)
     + 0.2 * clash_score acts"

subsection \<open>The search as a loop over schedules\<close>

text \<open>
  Scoring a list of schedules one after the other with the base case of
  \<^verbatim>\<open>try_subject_combinations\<close>.
\<close>

fun visit_all ::
    "(activity list \<Rightarrow> pyfloat option) \<Rightarrow> activity list list \<Rightarrow> search_state \<Rightarrow>
     search_state option" where
  "visit_all scorer [] st = Some st"
| "visit_all scorer (sel # sels) st =
     (case try_subject_combinations scorer [] [] sel st of
        None \<Rightarrow> None
      | Some st' \<Rightarrow> visit_all scorer sels st')"

text \<open>The candidate lists of the groups of one subject, read from the index as the search does.\<close>

definition cands :: "index \<Rightarrow> string \<Rightarrow> activity list list" where
  "cands sa c = (let ag = od_get sa c in map (od_get ag) (map fst ag))"

text \<open>
  The state \<open>st'\<close> after scoring the schedules \<open>sels\<close> from the state \<open>st\<close>: all of them
  are recorded, none scores above the best score, and the best is either the old one or
  the first of \<open>sels\<close> that reaches the new best score, strictly above the old one.
\<close>

definition best_so_far ::
    "(activity list \<Rightarrow> pyfloat option) \<Rightarrow> activity list list \<Rightarrow> search_state \<Rightarrow>
     search_state \<Rightarrow> bool" where
  "best_so_far scorer sels st st' \<longleftrightarrow>
     scored st' = scored st @ sels \<and>
     (\<forall>sel \<in> set sels. \<forall>v. scorer sel = Some v \<longrightarrow> \<not> float_gt v (best_score st')) \<and>
     ((best_score st' = best_score st \<and> best_combination st' = best_combination st) \<or>
      (\<exists>i < length sels.
          best_combination st' = sels ! i \<and>
          scorer (sels ! i) = Some (best_score st') \<and>
          float_gt (best_score st') (best_score st) \<and>
          (\<forall>j < i. \<forall>w. scorer (sels ! j) = Some w \<longrightarrow> float_gt (best_score st') w)))"

subsection \<open>Sample data\<close>

definition act :: "string \<Rightarrow> string \<Rightarrow> string \<Rightarrow> string \<Rightarrow> string \<Rightarrow> string \<Rightarrow> activity" where
  "act s g c d t du =
     \<lparr>subject_code = s, activity_group_code = g, activity_code = c, day_of_week = d,
      start_time = t, duration = du\<rparr>"

definition prefs :: "int \<Rightarrow> int \<Rightarrow> string list \<Rightarrow> optimization" where
  "prefs s e days = \<lparr>tr_start = s, tr_end = e, avoidDays = days\<rparr>"

definition example_catalog :: "subject list" where
  "example_catalog =
     [\<lparr>subj_code = ''MATH1'',
       subj_activities =
         [(''MATH1|Lecture|01'', act ''MATH1'' ''Lecture'' ''01'' ''Mon'' ''09:00'' ''60''),
          (''MATH1|Tutorial|01'', act ''MATH1'' ''Tutorial'' ''01'' ''Tue'' ''10:00'' ''60''),
          (''MATH1|Tutorial|02'', act ''MATH1'' ''Tutorial'' ''02'' ''Tue'' ''11:30'' ''30'')]\<rparr>]"




section \<open>Properties\<close>

lemmas parse_defs = time_to_minutes_def py_int_def is_digit_def digits_val_def digit_val_def

lemmas sample_defs = act_def prefs_def

subsection \<open>Preference scorer\<close>

text \<open>
  Claim C6. The day-avoidance score of an activity is 0.0 or 1.0, and it is 1.0 exactly
  when the weekday of the activity is not among the weekdays of the avoid-day list.
\<close>

theorem score_avoid_days_zero_one:
  "score_avoid_days opt a \<in> {0, 1} \<and>
   (score_avoid_days opt a = 1 \<longleftrightarrow>
      weekday (day_of_week a) \<notin> weekday ` set (avoidDays opt))"
  by (simp add: score_avoid_days_def weekday_def image_def)

text \<open>
  Claim C10. The day-avoidance score is 0.0 exactly when the lower-cased first three
  characters of the activity's day equal the lower-cased first three characters of some
  entry of the avoid-day list.
\<close>

theorem score_avoid_days_prefix_match:
  "score_avoid_days opt a = 0 \<longleftrightarrow>
   (\<exists>d \<in> set (avoidDays opt). take 3 (lower (day_of_week a)) = take 3 (lower d))"
  by (auto simp add: score_avoid_days_def)

text \<open>
  The entries \<open>Tuesday\<close>, \<open>tue\<close> and \<open>TUE\<close> each penalise an activity on \<open>Tue\<close>; the
  entries \<open>thu\<close> and \<open>Tuxedo\<close> do not.
\<close>

theorem score_avoid_days_prefix_match_witness:
  "score_avoid_days (prefs 6 18 [''Tuesday'']) (act ''S'' ''G'' ''01'' ''Tue'' ''09:00'' ''60'') = 0 \<and>
   score_avoid_days (prefs 6 18 [''tue'']) (act ''S'' ''G'' ''01'' ''Tue'' ''09:00'' ''60'') = 0 \<and>
   score_avoid_days (prefs 6 18 [''TUE'']) (act ''S'' ''G'' ''01'' ''Tue'' ''09:00'' ''60'') = 0 \<and>
   score_avoid_days (prefs 6 18 [''thu'', ''Tuxedo'']) (act ''S'' ''G'' ''01'' ''Tue'' ''09:00'' ''60'') \<noteq> 0"
  using
    score_avoid_days_prefix_match
      [of "prefs 6 18 [''Tuesday'']" "act ''S'' ''G'' ''01'' ''Tue'' ''09:00'' ''60''"]
    score_avoid_days_prefix_match
      [of "prefs 6 18 [''tue'']" "act ''S'' ''G'' ''01'' ''Tue'' ''09:00'' ''60''"]
    score_avoid_days_prefix_match
      [of "prefs 6 18 [''TUE'']" "act ''S'' ''G'' ''01'' ''Tue'' ''09:00'' ''60''"]
    score_avoid_days_prefix_match
      [of "prefs 6 18 [''thu'', ''Tuxedo'']" "act ''S'' ''G'' ''01'' ''Tue'' ''09:00'' ''60''"]
  by (simp add: lower_def sample_defs)

text \<open>
  Claim C5. Two activities on different days never clash, whatever their times. For two
  activities whose times and durations are numbers, the durations positive,
  \<^verbatim>\<open>check_clash\<close> is true exactly when the days are equal and the half-open minute
  intervals from start to start plus duration have a minute in common.
\<close>

theorem check_clash_overlap:
  "(day_of_week a1 \<noteq> day_of_week a2 \<longrightarrow> check_clash a1 a2 = Some False) \<and>
   (time_to_minutes (start_time a1) = Some s1 \<and> py_int (duration a1) = Some d1 \<and>
    time_to_minutes (start_time a2) = Some s2 \<and> py_int (duration a2) = Some d2 \<and>
    0 < d1 \<and> 0 < d2 \<longrightarrow>
    check_clash a1 a2 =
      Some (day_of_week a1 = day_of_week a2 \<and> {s1 ..< s1 + d1} \<inter> {s2 ..< s2 + d2} \<noteq> {}))"
  by (auto simp add: check_clash_def)

text \<open>
  Wednesday 09:00 to 10:00 clashes with Wednesday 09:30 to 10:30, and not with the same
  times on Thursday.
\<close>

theorem check_clash_overlap_witness:
  "time_to_minutes ''09:00'' = Some 540 \<and> py_int ''60'' = Some 60 \<and>
   time_to_minutes ''09:30'' = Some 570 \<and>
   check_clash (act ''S'' ''G'' ''01'' ''Wed'' ''09:00'' ''60'')
               (act ''S'' ''H'' ''01'' ''Wed'' ''09:30'' ''60'') = Some True \<and>
   check_clash (act ''S'' ''G'' ''01'' ''Wed'' ''09:00'' ''60'')
               (act ''S'' ''H'' ''01'' ''Thu'' ''09:30'' ''60'') = Some False"
  using
    check_clash_overlap
      [of "act ''S'' ''G'' ''01'' ''Wed'' ''09:00'' ''60''"
          "act ''S'' ''H'' ''01'' ''Wed'' ''09:30'' ''60''" 540 60 570 60]
    check_clash_overlap
      [of "act ''S'' ''G'' ''01'' ''Wed'' ''09:00'' ''60''"
          "act ''S'' ''H'' ''01'' ''Thu'' ''09:30'' ''60''" 540 60 570 60]
  by (simp add: parse_defs sample_defs)

text \<open>
  The day-avoidance score and the clash score lie between 0 and 1, and the time-window
  score is at most 1.
\<close>

lemma score_avoid_days_bounds: "0 \<le> score_avoid_days opt a \<and> score_avoid_days opt a \<le> 1"
  by (simp add: score_avoid_days_def)

lemma time_score_le_one: "score_time_restrictions opt a = Some x \<Longrightarrow> x \<le> 1"
  by (auto simp add: score_time_restrictions_def Let_def bind_eq_Some_conv)

lemma clash_score_bounds: "0 \<le> clash_score acts \<and> clash_score acts \<le> 1"
proof -
  let ?a = "length (clashing_pairs acts)" and ?b = "length (index_pairs (length acts))"
  have "?a \<le> ?b" by (simp add: clashing_pairs_def)
  then have "real ?a / real ?b \<le> 1"
    by (cases "?b = 0") (simp_all add: divide_le_eq_1)
  moreover have "0 \<le> real ?a / real ?b" by simp
  ultimately show ?thesis by (simp add: clash_score_def)
qed

text \<open>
  Claim C3. The time-window score leaves the interval from 0.0 to 1.0: with the window
  20 to 22 hours, an activity at 07:00 lasting 60 minutes deviates by 780 minutes at its
  start and 720 at its end, 1500 in all, more than the divisor 1440 that the source
  calls the maximum possible deviation; the score is 1 - 1500/1440, below zero.
\<close>

theorem score_time_restrictions_negative:
  "score_time_restrictions (prefs 20 22 []) (act ''S'' ''G'' ''01'' ''Mon'' ''07:00'' ''60'')
     = Some (- 1 / 24)"
  by (simp add: score_time_restrictions_def parse_defs sample_defs)

text \<open>The value of \<^verbatim>\<open>score_activity_combination\<close> on activities whose times are numbers.\<close>

lemma parses_time_score:
  "parses a \<Longrightarrow> score_time_restrictions opt a = Some (time_window_score opt a)"
  by (auto simp add: parses_def time_window_score_def score_time_restrictions_def Let_def)

lemma parses_check_clash:
  "parses a \<Longrightarrow> parses b \<Longrightarrow> \<exists>c. check_clash a b = Some c"
  by (auto simp add: parses_def check_clash_def Let_def)

lemma sum_scores_value:
  "list_all parses as \<Longrightarrow>
   sum_scores (score_time_restrictions opt) acc as
     = Some (acc + sum_list (map (time_window_score opt) as))"
  by (induction as arbitrary: acc) (simp_all add: parses_time_score)

lemma foldl_sum:
  "foldl (\<lambda>acc a. acc + f a) acc as = acc + sum_list (map f as)" for acc :: real
  by (induction as arbitrary: acc) simp_all

lemma clash_inner_value:
  "\<forall>j \<in> set js. \<exists>b. check_clash (acts ! i) (acts ! j) = Some b \<Longrightarrow>
   clash_inner acts i js c
     = Some (c + length (filter (\<lambda>j. check_clash (acts ! i) (acts ! j) = Some True) js))"
  by (induction js arbitrary: c) auto

lemma clash_outer_value:
  "\<forall>i \<in> set is. \<forall>j \<in> {i + 1 ..< length acts}. \<exists>b. check_clash (acts ! i) (acts ! j) = Some b \<Longrightarrow>
   clash_outer acts is c
     = Some (c + sum_list (map (\<lambda>i. length (filter (\<lambda>j. check_clash (acts ! i) (acts ! j) = Some True)
                                        [i + 1 ..< length acts])) is))"
proof (induction "is" arbitrary: c)
  case Nil
  show ?case by simp
next
  case (Cons i "is")
  from Cons.prems have "\<forall>j \<in> set [i + 1 ..< length acts]. \<exists>b. check_clash (acts ! i) (acts ! j) = Some b"
    by simp
  from clash_inner_value [OF this] Cons show ?case
    by simp
qed

lemma filter_less_upt: "filter ((<) i) [0 ..< n] = [Suc i ..< n]"
proof (induction n)
  case 0
  show ?case by simp
next
  case (Suc n)
  then show ?case by (cases "i < n") auto
qed

lemma index_pairs_rows:
  "index_pairs n = concat (map (\<lambda>i. map (Pair i) [Suc i ..< n]) [0 ..< n])"
proof -
  have "filter (\<lambda>(i, j). i < j) (map (Pair i) [0 ..< n]) = map (Pair i) [Suc i ..< n]" for i
    by (simp add: filter_map comp_def filter_less_upt)
  then show ?thesis
    by (simp add: index_pairs_def product_concat_map filter_concat comp_def)
qed

lemma count_clashes_value:
  "list_all parses acts \<Longrightarrow> count_clashes acts = Some (length (clashing_pairs acts))"
proof -
  assume ok: "list_all parses acts"
  have "\<forall>i \<in> set [0 ..< length acts]. \<forall>j \<in> {i + 1 ..< length acts}.
      \<exists>b. check_clash (acts ! i) (acts ! j) = Some b"
    using ok by (auto simp add: list_all_length intro: parses_check_clash)
  from clash_outer_value [OF this, of 0]
  have "count_clashes acts
      = Some (sum_list (map (\<lambda>i. length (filter (\<lambda>j. check_clash (acts ! i) (acts ! j) = Some True)
                                        [i + 1 ..< length acts])) [0 ..< length acts]))"
    by (simp add: count_clashes_def)
  moreover have "length (clashing_pairs acts)
      = sum_list (map (\<lambda>i. length (filter (\<lambda>j. check_clash (acts ! i) (acts ! j) = Some True)
                                        [i + 1 ..< length acts])) [0 ..< length acts])"
    by (simp add: clashing_pairs_def index_pairs_rows filter_concat length_concat comp_def
        filter_map)
  ultimately show ?thesis by simp
qed

lemma row_sum:
  "m \<le> n \<Longrightarrow>
   real (sum_list (map (\<lambda>i. n - Suc i) [0 ..< m])) = real m * real n - real m * (real m + 1) / 2"
proof (induction m)
  case 0
  show ?case by simp
next
  case (Suc m)
  then have "real (n - Suc m) = real n - real m - 1"
    by (simp add: of_nat_diff)
  with Suc show ?case
    by (simp add: field_simps)
qed

lemma length_index_pairs:
  "real (length (index_pairs n)) = real n * (real n - 1) / 2"
proof -
  have "length (index_pairs n) = sum_list (map (\<lambda>i. n - Suc i) [0 ..< n])"
    by (simp add: index_pairs_rows length_concat comp_def)
  then show ?thesis
    using row_sum [of n n] by (simp add: field_simps)
qed

lemma clash_part:
  assumes ne: "acts \<noteq> []" and ok: "list_all parses acts"
  shows "(if real (length acts) * (real (length acts) - 1) / 2 > 0
          then do {
            clash_count \<leftarrow> count_clashes acts;
            Some (1 - real clash_count / (real (length acts) * (real (length acts) - 1) / 2))
          }
          else Some 1) = Some (clash_score acts)"
proof (cases "length acts < 2")
  case True
  with ne have "length acts = 1" by (cases acts) auto
  then show ?thesis by (simp add: clash_score_def)
next
  case False
  let ?n = "real (length acts)"
  from False have "2 \<le> ?n" by simp
  then have "0 < ?n" and "0 < ?n - 1" by linarith+
  then have "0 < ?n * (?n - 1)" by (rule mult_pos_pos)
  then have "0 < ?n * (?n - 1) / 2" by simp
  with False show ?thesis
    by (simp only: if_True count_clashes_value [OF ok] clash_score_def if_False
        length_index_pairs bind.bind_lunit)
qed

lemma score_value:
  assumes ne: "acts \<noteq> []" and ok: "list_all parses acts"
  shows "score_activity_combination opt acts = Some (Fin (combined_score opt acts))"
  unfolding score_activity_combination_def Let_def clash_part [OF ne ok]
  using ne
  by (simp add: foldl_sum sum_scores_value [OF ok] combined_score_def mean_def)

lemma score_defined:
  "list_all parses sel \<Longrightarrow> \<exists>v. score_activity_combination opt sel = Some v"
proof (cases "sel = []")
  case True
  then show ?thesis by (simp add: score_activity_combination_def)
next
  case False
  assume "list_all parses sel"
  with False score_value [of sel opt] show ?thesis by simp
qed

lemma score_NegInf:
  "list_all parses sel \<Longrightarrow> score_activity_combination opt sel = Some NegInf \<Longrightarrow> sel = []"
  using score_value [of sel opt] by auto

text \<open>
  Claim C4. For a non-empty list of activities whose times are numbers, the combined
  score is 0.5 times the mean day-avoidance score plus 0.3 times the mean time-window
  score plus 0.2 times the clash score; the clash score is 1 minus the number of
  clashing unordered pairs over the number of unordered pairs, and 1 for fewer than two
  activities.
\<close>

theorem combined_score_formula:
  "acts \<noteq> [] \<and> list_all parses acts \<longrightarrow>
   score_activity_combination opt acts
     = Some (Fin (0.5 * mean (map (score_avoid_days opt) acts)
                  + 0.3 * mean (map (time_window_score opt) acts)
                  + 0.2 * clash_score acts)) \<and>
   clash_score acts =
     (if length acts < 2 then 1
      else 1 - real (length (clashing_pairs acts)) / real (length (index_pairs (length acts))))"
  using score_value [of acts opt] by (simp add: combined_score_def clash_score_def)

text \<open>
  Two activities on Wednesday, 09:00 to 10:00 and 09:30 to 10:30, inside the window: one
  pair, and it clashes, so the clash score is 0 and the combined score 0.5 + 0.3.
\<close>

theorem combined_score_formula_witness:
  "[act ''S'' ''G'' ''01'' ''Wed'' ''09:00'' ''60'', act ''S'' ''H'' ''01'' ''Wed'' ''09:30'' ''60''] \<noteq> [] \<and>
   list_all parses
     [act ''S'' ''G'' ''01'' ''Wed'' ''09:00'' ''60'', act ''S'' ''H'' ''01'' ''Wed'' ''09:30'' ''60''] \<and>
   clash_score
     [act ''S'' ''G'' ''01'' ''Wed'' ''09:00'' ''60'', act ''S'' ''H'' ''01'' ''Wed'' ''09:30'' ''60''] = 0 \<and>
   score_activity_combination (prefs 8 18 [])
     [act ''S'' ''G'' ''01'' ''Wed'' ''09:00'' ''60'', act ''S'' ''H'' ''01'' ''Wed'' ''09:30'' ''60'']
     = Some (Fin (4 / 5))"
proof -
  let ?acts = "[act ''S'' ''G'' ''01'' ''Wed'' ''09:00'' ''60'',
                act ''S'' ''H'' ''01'' ''Wed'' ''09:30'' ''60'']"
  have ok: "list_all parses ?acts"
    by (simp add: parses_def parse_defs sample_defs)
  have clash: "clash_score ?acts = 0"
    by code_simp
  have days: "mean (map (score_avoid_days (prefs 8 18 [])) ?acts) = 1"
    by (simp add: mean_def score_avoid_days_def sample_defs)
  have times: "mean (map (time_window_score (prefs 8 18 [])) ?acts) = 1"
    by (simp add: mean_def time_window_score_def score_time_restrictions_def parse_defs
        sample_defs)
  from combined_score_formula [of ?acts "prefs 8 18 []"] ok
  have "score_activity_combination (prefs 8 18 []) ?acts
      = Some (Fin (0.5 * mean (map (score_avoid_days (prefs 8 18 [])) ?acts)
                   + 0.3 * mean (map (time_window_score (prefs 8 18 [])) ?acts)
                   + 0.2 * clash_score ?acts))"
    by blast
  with ok clash show ?thesis
    unfolding days times by simp
qed

subsection \<open>Result formatter\<close>

text \<open>
  Claim C9. \<^verbatim>\<open>format_output\<close> returns the rendered lines of the schedule in
  lexicographic order, and returns the same list for every reordering of the schedule.
\<close>

theorem format_output_sorted_perm:
  "sorted (format_output xs) \<and>
   mset (format_output xs) = mset (map format_activity xs) \<and>
   (mset ys = mset xs \<longrightarrow> format_output ys = format_output xs)"
proof -
  have "mset ys = mset xs \<Longrightarrow> sort (map format_activity ys) = sort (map format_activity xs)"
    by (rule properties_for_sort) simp_all
  then show ?thesis by (simp add: format_output_def)
qed

theorem format_output_sorted_perm_witness:
  "mset [act ''S'' ''G'' ''01'' ''Wed'' ''09:00'' ''60'', act ''B'' ''H'' ''02'' ''Thu'' ''09:30'' ''60'']
     = mset [act ''B'' ''H'' ''02'' ''Thu'' ''09:30'' ''60'', act ''S'' ''G'' ''01'' ''Wed'' ''09:00'' ''60''] \<and>
   format_output
     [act ''S'' ''G'' ''01'' ''Wed'' ''09:00'' ''60'', act ''B'' ''H'' ''02'' ''Thu'' ''09:30'' ''60'']
   = format_output
     [act ''B'' ''H'' ''02'' ''Thu'' ''09:30'' ''60'', act ''S'' ''G'' ''01'' ''Wed'' ''09:00'' ''60'']"
  using format_output_sorted_perm
    [of "[act ''B'' ''H'' ''02'' ''Thu'' ''09:30'' ''60'', act ''S'' ''G'' ''01'' ''Wed'' ''09:00'' ''60'']"
        "[act ''S'' ''G'' ''01'' ''Wed'' ''09:00'' ''60'', act ''B'' ''H'' ''02'' ''Thu'' ''09:30'' ''60'']"]
  by (simp add: add.commute)

subsection \<open>Catalog indexer\<close>

text \<open>
  \<^verbatim>\<open>get_subject_activities\<close> returns the index of the catalog: the subject codes, the
  group codes of each subject and the candidates of each group, all in catalog order.
\<close>

lemma first_occ_snoc:
  "first_occ (xs @ [x]) = (if x \<in> set (first_occ xs) then first_occ xs else first_occ xs @ [x])"
  by (simp add: first_occ_def)

lemma first_occ_Nil: "first_occ [] = []"
  by (simp add: first_occ_def)

lemma set_first_occ: "set (first_occ xs) = set xs"
  by (induction xs rule: rev_induct) (auto simp add: first_occ_snoc first_occ_Nil)

lemma distinct_first_occ: "distinct (first_occ xs)"
  by (induction xs rule: rev_induct) (auto simp add: first_occ_snoc first_occ_Nil)

lemma od_get_map:
  "od_get (map (\<lambda>k. (k, f k)) ks) k = (if k \<in> set ks then f k else [])"
  by (induction ks) (auto simp add: od_get_def)

lemma od_set_map:
  "distinct ks \<Longrightarrow>
   od_set (map (\<lambda>k. (k, f k)) ks) k v =
     map (\<lambda>k'. (k', if k' = k then v else f k')) (if k \<in> set ks then ks else ks @ [k])"
  by (induction ks) auto

lemma foldl_tagged:
  "foldl (\<lambda>sa sub. foldl (add_activity (subj_code sub)) sa (map snd (subj_activities sub)))
     acc subjects
   = foldl (\<lambda>sa p. add_activity (fst p) sa (snd p)) acc (tagged subjects)"
proof (induction subjects arbitrary: acc)
  case Nil
  then show ?case by (simp add: tagged_def)
next
  case (Cons sub subjects)
  have inner: "foldl (add_activity c) sa (map snd kas)
        = foldl (\<lambda>sa p. add_activity (fst p) sa (snd p)) sa (map (\<lambda>ka. (c, snd ka)) kas)"
    for c sa and kas :: "(string \<times> activity) list"
    by (induction kas arbitrary: sa) simp_all
  from Cons.IH show ?case
    by (simp add: tagged_def inner)
qed

lemma candidates_Nil:
  "g \<notin> set (group_codes_of T s) \<Longrightarrow> candidates T s g = []"
  by (auto simp add: candidates_def group_codes_of_def set_first_occ filter_empty_conv)

lemma group_codes_of_Nil:
  "s \<notin> set (subject_codes_of T) \<Longrightarrow> group_codes_of T s = []"
proof -
  assume "s \<notin> set (subject_codes_of T)"
  then have "activities_of T s = []"
    by (auto simp add: subject_codes_of_def set_first_occ activities_of_def filter_empty_conv)
  then show ?thesis by (simp add: group_codes_of_def first_occ_Nil)
qed

lemma index_of_snoc:
  "index_of (T @ [(s, a)]) = add_activity s (index_of T) a"
proof -
  let ?g = "activity_group_code a"
  let ?T' = "T @ [(s, a)]"
  let ?f = "\<lambda>s. map (\<lambda>g. (g, candidates T s g)) (group_codes_of T s)"
  let ?f' = "\<lambda>s. map (\<lambda>g. (g, candidates ?T' s g)) (group_codes_of ?T' s)"
  have get_s: "od_get (index_of T) s = ?f s"
    by (simp add: index_of_def od_get_map group_codes_of_Nil)
  have get_g: "od_get (?f s) ?g = candidates T s ?g"
    by (simp add: od_get_map candidates_Nil)
  have acts_s: "activities_of ?T' s = activities_of T s @ [a]"
    by (simp add: activities_of_def)
  have acts_other: "s' \<noteq> s \<Longrightarrow> activities_of ?T' s' = activities_of T s'" for s'
    by (simp add: activities_of_def)
  have f_other: "s' \<noteq> s \<Longrightarrow> ?f' s' = ?f s'" for s'
    by (simp add: group_codes_of_def candidates_def acts_other)
  have gc_s: "group_codes_of ?T' s =
      (if ?g \<in> set (group_codes_of T s) then group_codes_of T s else group_codes_of T s @ [?g])"
    by (simp add: group_codes_of_def acts_s first_occ_snoc)
  have cand_s: "candidates ?T' s g = (if g = ?g then candidates T s ?g @ [a] else candidates T s g)" for g
    by (auto simp add: candidates_def acts_s)
  have f_s: "?f' s = od_set (?f s) ?g (candidates T s ?g @ [a])"
    unfolding od_set_map [OF distinct_first_occ, of "\<lambda>g. candidates T s g" "map activity_group_code (activities_of T s)", folded group_codes_of_def]
    unfolding gc_s by (simp add: cand_s cong: map_cong)
  have codes: "subject_codes_of ?T' =
      (if s \<in> set (subject_codes_of T) then subject_codes_of T else subject_codes_of T @ [s])"
    by (simp add: subject_codes_of_def first_occ_snoc)
  have "index_of ?T' = map (\<lambda>s'. (s', if s' = s then ?f' s else ?f s'))
      (if s \<in> set (subject_codes_of T) then subject_codes_of T else subject_codes_of T @ [s])"
    unfolding index_of_def codes by (auto simp add: f_other)
  also have "\<dots> = od_set (index_of T) s (?f' s)"
    unfolding index_of_def
    by (rule od_set_map [symmetric]) (simp add: subject_codes_of_def distinct_first_occ)
  finally show ?thesis
    by (simp add: add_activity_def get_s get_g f_s Let_def)
qed

lemma get_subject_activities_index_of:
  "get_subject_activities subjects = index_of (tagged subjects)"
proof -
  have "foldl (\<lambda>sa p. add_activity (fst p) sa (snd p)) [] T = index_of T" for T
  proof (induction T rule: rev_induct)
    case Nil
    then show ?case by (simp add: index_of_def subject_codes_of_def first_occ_Nil)
  next
    case (snoc p T)
    then show ?case by (cases p) (simp add: index_of_snoc)
  qed
  then show ?thesis
    by (simp add: get_subject_activities_def foldl_tagged)
qed


subsection \<open>Combination search\<close>

text \<open>The recursion scores the schedules of the index one after the other.\<close>

lemma visit_all_append:
  "visit_all scorer (xs @ ys) st =
     (case visit_all scorer xs st of None \<Rightarrow> None | Some st' \<Rightarrow> visit_all scorer ys st')"
  by (induction xs arbitrary: st) (auto split: option.splits)

lemma search_enumerates:
  "try_subject_combinations scorer sa codes cur st =
     visit_all scorer (map ((@) cur) (product_lists (concat (map (cands sa) codes)))) st"
  "try_group_combinations scorer sa rest cur ag gs ssel st =
     visit_all scorer (map (\<lambda>s. cur @ ssel @ s)
       (product_lists (map (od_get ag) gs @ concat (map (cands sa) rest)))) st"
  "try_activities scorer sa rest cur ag gs ssel acts st =
     visit_all scorer (map (\<lambda>s. cur @ ssel @ s)
       (concat (map (\<lambda>a. map (Cons a)
          (product_lists (map (od_get ag) gs @ concat (map (cands sa) rest)))) acts))) st"
proof (induction scorer sa codes cur st and scorer sa rest cur ag gs ssel st
         and scorer sa rest cur ag gs ssel acts st
       rule: try_subject_combinations_try_group_combinations_try_activities.induct)
  case (1 scorer sa current_selection st)
  show ?case by (simp split: option.splits)
next
  case (2 scorer sa scode rest current_selection st)
  from 2 [OF refl refl] show ?case
    by (simp add: cands_def Let_def)
next
  case (3 scorer sa rest current_selection activity_groups subject_selection st)
  from 3 [OF refl] show ?case
    by (simp add: comp_def)
next
  case (4 scorer sa rest current_selection activity_groups group_code gs subject_selection st)
  from 4 [OF refl] show ?case
    by simp
next
  case (5 scorer sa rest current_selection activity_groups gs subject_selection st)
  show ?case by simp
next
  case (6 scorer sa rest current_selection activity_groups gs subject_selection activity acts st)
  show ?case
    by (simp add: visit_all_append 6 comp_def split: option.splits)
qed


text \<open>\<^verbatim>\<open>a > b\<close> on floats is a strict linear order.\<close>

lemma float_gt_irrefl: "\<not> float_gt a a"
  by (cases a) simp_all

lemma float_gt_trans: "float_gt a b \<Longrightarrow> float_gt b c \<Longrightarrow> float_gt a c"
  by (cases a; cases b; cases c) simp_all

lemma float_gt_above: "float_gt a b \<Longrightarrow> \<not> float_gt c b \<Longrightarrow> float_gt a c"
  by (cases a; cases b; cases c) simp_all

lemma float_gt_below: "\<not> float_gt a b \<Longrightarrow> float_gt c b \<Longrightarrow> \<not> float_gt a c"
  by (cases a; cases b; cases c) simp_all

lemma visit_all_best:
  assumes "\<forall>sel \<in> set sels. \<exists>v. scorer sel = Some v"
  shows "\<exists>st'. visit_all scorer sels st = Some st' \<and> best_so_far scorer sels st st'"
  using assms
proof (induction sels rule: rev_induct)
  case Nil
  show ?case by (simp add: best_so_far_def)
next
  case (snoc x sels)
  then obtain st1 where run: "visit_all scorer sels st = Some st1"
    and inv: "best_so_far scorer sels st st1"
    by auto
  from snoc.prems obtain v where v: "scorer x = Some v"
    by auto
  let ?n = "length sels"
  show ?case
  proof (cases "float_gt v (best_score st1)")
    case True
    let ?st' = "\<lparr>best_combination = x, best_score = v, scored = scored st1 @ [x]\<rparr>"
    have res: "visit_all scorer (sels @ [x]) st = Some ?st'"
      by (simp add: visit_all_append run v True)
    have below: "\<not> float_gt w v"
      if "sel \<in> set sels" "scorer sel = Some w" for sel w
      using inv that True float_gt_below unfolding best_so_far_def by blast
    have above: "float_gt v w"
      if "j < ?n" "scorer (sels ! j) = Some w" for j w
    proof -
      from that inv have "\<not> float_gt w (best_score st1)"
        unfolding best_so_far_def using nth_mem by blast
      with True show ?thesis by (rule float_gt_above)
    qed
    have first: "float_gt v (best_score st)"
      using inv True float_gt_trans unfolding best_so_far_def by metis
    have "best_so_far scorer (sels @ [x]) st ?st'"
      unfolding best_so_far_def
    proof (intro conjI)
      show "scored ?st' = scored st @ sels @ [x]"
        using inv by (simp add: best_so_far_def)
      show "\<forall>sel \<in> set (sels @ [x]). \<forall>w. scorer sel = Some w \<longrightarrow>
          \<not> float_gt w (best_score ?st')"
        using below v float_gt_irrefl by auto
      have "?n < length (sels @ [x]) \<and> best_combination ?st' = (sels @ [x]) ! ?n \<and>
          scorer ((sels @ [x]) ! ?n) = Some (best_score ?st') \<and>
          float_gt (best_score ?st') (best_score st) \<and>
          (\<forall>j < ?n. \<forall>w. scorer ((sels @ [x]) ! j) = Some w \<longrightarrow>
              float_gt (best_score ?st') w)"
        using v first above by (simp add: nth_append)
      then show "(best_score ?st' = best_score st \<and> best_combination ?st' = best_combination st) \<or>
          (\<exists>i < length (sels @ [x]).
            best_combination ?st' = (sels @ [x]) ! i \<and>
            scorer ((sels @ [x]) ! i) = Some (best_score ?st') \<and>
            float_gt (best_score ?st') (best_score st) \<and>
            (\<forall>j < i. \<forall>w. scorer ((sels @ [x]) ! j) = Some w \<longrightarrow>
                float_gt (best_score ?st') w))"
        by blast
    qed
    with res show ?thesis by blast
  next
    case False
    let ?st' = "\<lparr>best_combination = best_combination st1, best_score = best_score st1,
                  scored = scored st1 @ [x]\<rparr>"
    have res: "visit_all scorer (sels @ [x]) st = Some ?st'"
      by (simp add: visit_all_append run v False)
    have "best_so_far scorer (sels @ [x]) st ?st'"
      unfolding best_so_far_def
    proof (intro conjI)
      show "scored ?st' = scored st @ sels @ [x]"
        using inv by (simp add: best_so_far_def)
      show "\<forall>sel \<in> set (sels @ [x]). \<forall>w. scorer sel = Some w \<longrightarrow>
          \<not> float_gt w (best_score ?st')"
        using inv v False by (auto simp add: best_so_far_def)
      from inv consider
          (same) "best_score st1 = best_score st" "best_combination st1 = best_combination st"
        | (moved) i where "i < ?n" "best_combination st1 = sels ! i"
            "scorer (sels ! i) = Some (best_score st1)"
            "float_gt (best_score st1) (best_score st)"
            "\<forall>j < i. \<forall>w. scorer (sels ! j) = Some w \<longrightarrow>
                float_gt (best_score st1) w"
        unfolding best_so_far_def by blast
      then show "(best_score ?st' = best_score st \<and> best_combination ?st' = best_combination st) \<or>
          (\<exists>i < length (sels @ [x]).
            best_combination ?st' = (sels @ [x]) ! i \<and>
            scorer ((sels @ [x]) ! i) = Some (best_score ?st') \<and>
            float_gt (best_score ?st') (best_score st) \<and>
            (\<forall>j < i. \<forall>w. scorer ((sels @ [x]) ! j) = Some w \<longrightarrow>
                float_gt (best_score ?st') w))"
      proof cases
        case same
        then show ?thesis by simp
      next
        case moved
        have "i < length (sels @ [x]) \<and> best_combination ?st' = (sels @ [x]) ! i \<and>
            scorer ((sels @ [x]) ! i) = Some (best_score ?st') \<and>
            float_gt (best_score ?st') (best_score st) \<and>
            (\<forall>j < i. \<forall>w. scorer ((sels @ [x]) ! j) = Some w \<longrightarrow>
                float_gt (best_score ?st') w)"
          using moved by (simp add: nth_append)
        then show ?thesis by blast
      qed
    qed
    with res show ?thesis by blast
  qed
qed


text \<open>The schedules that the search visits are the complete schedules of the catalog.\<close>

lemma od_get_index_of:
  "od_get (index_of T) s = map (\<lambda>g. (g, candidates T s g)) (group_codes_of T s)"
  by (simp add: index_of_def od_get_map group_codes_of_Nil)

lemma cands_index_of:
  "cands (index_of T) s = map (candidates T s) (group_codes_of T s)"
  by (simp add: cands_def od_get_index_of Let_def comp_def od_get_map)

lemma index_groups:
  "concat (map (cands (index_of T)) (map fst (index_of T))) = catalog_groups T"
proof -
  have codes: "map fst (index_of T) = subject_codes_of T"
    by (simp add: index_of_def comp_def)
  have rows: "cands (index_of T) = (\<lambda>s. map (candidates T s) (group_codes_of T s))"
    by (rule ext) (rule cands_index_of)
  show ?thesis
    unfolding codes rows
    by (simp add: catalog_groups_def catalog_keys_def map_concat comp_def)
qed

lemma map_append_Nil: "map ((@) []) xs = xs"
  by (induction xs) simp_all

lemma search_with_visits:
  "search_with scorer subjects = visit_all scorer (complete_schedules subjects) initial_state"
  unfolding search_with_def Let_def search_enumerates(1) get_subject_activities_index_of
    index_groups map_append_Nil complete_schedules_def
  by (rule refl)

lemma distinct_pairs:
  "distinct xs \<Longrightarrow> (\<forall>x \<in> set xs. distinct (g x)) \<Longrightarrow>
   distinct (concat (map (\<lambda>x. map (Pair x) (g x)) xs))"
  by (induction xs) (auto simp add: distinct_map inj_on_def)

lemma distinct_catalog_keys: "distinct (catalog_keys T)"
  unfolding catalog_keys_def
  by (rule distinct_pairs)
    (simp_all add: subject_codes_of_def group_codes_of_def distinct_first_occ)

lemma candidates_member:
  "a \<in> set (candidates T s g) \<longleftrightarrow> (s, a) \<in> set T \<and> activity_group_code a = g"
  by (force simp add: candidates_def activities_of_def)

lemma catalog_keys_member:
  "(s, g) \<in> set (catalog_keys T) \<longleftrightarrow> (\<exists>a. (s, a) \<in> set T \<and> activity_group_code a = g)"
proof
  assume "(s, g) \<in> set (catalog_keys T)"
  then have "g \<in> activity_group_code ` set (activities_of T s)"
    by (auto simp add: catalog_keys_def group_codes_of_def set_first_occ)
  then show "\<exists>a. (s, a) \<in> set T \<and> activity_group_code a = g"
    by (auto simp add: activities_of_def)
next
  assume "\<exists>a. (s, a) \<in> set T \<and> activity_group_code a = g"
  then obtain a where a: "(s, a) \<in> set T" "activity_group_code a = g"
    by blast
  then have "s \<in> set (subject_codes_of T)"
    by (force simp add: subject_codes_of_def set_first_occ)
  moreover from a have "a \<in> set (activities_of T s)"
    by (force simp add: activities_of_def)
  with a have "g \<in> set (group_codes_of T s)"
    by (force simp add: group_codes_of_def set_first_occ)
  ultimately show "(s, g) \<in> set (catalog_keys T)"
    by (auto simp add: catalog_keys_def)
qed

lemma candidates_nonempty:
  "(s, g) \<in> set (catalog_keys T) \<Longrightarrow> candidates T s g \<noteq> []"
proof -
  assume "(s, g) \<in> set (catalog_keys T)"
  then obtain a where "(s, a) \<in> set T \<and> activity_group_code a = g"
    unfolding catalog_keys_member by blast
  then have "a \<in> set (candidates T s g)"
    by (simp add: candidates_member)
  then show ?thesis by auto
qed

lemma product_lists_nonempty:
  "(\<forall>xs \<in> set xss. xs \<noteq> []) \<Longrightarrow> product_lists xss \<noteq> []"
  by (induction xss) (auto simp add: concat_eq_Nil_conv)

lemma complete_schedules_nonempty: "complete_schedules subjects \<noteq> []"
  unfolding complete_schedules_def
  by (rule product_lists_nonempty) (auto simp add: catalog_groups_def candidates_nonempty)

lemma complete_schedule_shape:
  assumes "sel \<in> set (complete_schedules subjects)"
  shows "list_all2 (\<lambda>a (s, g). (s, a) \<in> set (tagged subjects) \<and> activity_group_code a = g)
           sel (catalog_keys (tagged subjects))"
proof -
  from assms have "list_all2 (\<lambda>a ys. a \<in> set ys) sel (catalog_groups (tagged subjects))"
    by (simp add: complete_schedules_def product_lists_set)
  then show ?thesis
    by (simp add: catalog_groups_def list_all2_map2 candidates_member case_prod_unfold)
qed

lemma complete_schedule_parses:
  assumes "valid_catalog subjects" and "sel \<in> set (complete_schedules subjects)"
  shows "list_all parses sel"
proof -
  have "parses a" if "a \<in> set sel" for a
  proof -
    from that obtain i where i: "i < length sel" "a = sel ! i"
      by (auto simp add: in_set_conv_nth)
    from list_all2_nthD [OF complete_schedule_shape [OF assms(2)] i(1)] i(2)
    have "(fst (catalog_keys (tagged subjects) ! i), a) \<in> set (tagged subjects)"
      by (simp add: case_prod_unfold)
    with assms(1) show ?thesis
      by (auto simp add: valid_catalog_def list_all_iff)
  qed
  then show ?thesis by (simp add: list_all_iff)
qed

lemma search_result:
  assumes "\<forall>sel \<in> set (complete_schedules subjects). \<exists>v. scorer sel = Some v"
  shows "\<exists>st. search_with scorer subjects = Some st \<and>
           best_so_far scorer (complete_schedules subjects) initial_state st"
  unfolding search_with_visits
  using assms by (rule visit_all_best)

text \<open>
  The outcome of the search for a scoring method that returns on every complete schedule
  and gives negative infinity to the empty schedule only.
\<close>

lemma search_outcome:
  assumes ok: "\<forall>sel \<in> set (complete_schedules subjects).
      \<exists>v. scorer sel = Some v \<and> (v = NegInf \<longrightarrow> sel = [])"
  obtains st i v where
    "search_with scorer subjects = Some st"
    "scored st = complete_schedules subjects"
    "i < length (complete_schedules subjects)"
    "best_combination st = complete_schedules subjects ! i"
    "scorer (complete_schedules subjects ! i) = Some v"
    "\<forall>j < length (complete_schedules subjects). \<exists>w.
        scorer (complete_schedules subjects ! j) = Some w \<and>
        \<not> float_gt w v \<and> (j < i \<longrightarrow> float_gt v w)"
proof -
  let ?S = "complete_schedules subjects"
  from ok have "\<forall>sel \<in> set ?S. \<exists>v. scorer sel = Some v"
    by blast
  from search_result [OF this] obtain st where
    run: "search_with scorer subjects = Some st" and inv: "best_so_far scorer ?S initial_state st"
    by blast
  have defined: "\<exists>w. scorer (?S ! j) = Some w" if "j < length ?S" for j
    using that ok nth_mem by blast
  from inv have trace: "scored st = ?S"
    by (simp add: best_so_far_def initial_state_def)
  from inv have top: "\<not> float_gt w (best_score st)"
    if "j < length ?S" "scorer (?S ! j) = Some w" for j w
    using that nth_mem unfolding best_so_far_def by blast
  from inv consider
      (same) "best_score st = NegInf" "best_combination st = []"
    | (moved) i where "i < length ?S" "best_combination st = ?S ! i"
        "scorer (?S ! i) = Some (best_score st)"
        "\<forall>j < i. \<forall>w. scorer (?S ! j) = Some w \<longrightarrow> float_gt (best_score st) w"
    unfolding best_so_far_def initial_state_def by auto
  then show thesis
  proof cases
    case same
    have all_low: "scorer (?S ! j) = Some NegInf" if "j < length ?S" for j
    proof -
      from defined [OF that] obtain w where w: "scorer (?S ! j) = Some w"
        by blast
      with top [OF that w] same(1) show ?thesis by (cases w) simp_all
    qed
    have first: "0 < length ?S"
      using complete_schedules_nonempty [of subjects] by simp
    then have "?S ! 0 \<in> set ?S" by simp
    with ok all_low [OF first] have "?S ! 0 = []" by fastforce
    with same(2) have "best_combination st = ?S ! 0" by simp
    moreover have "\<forall>j < length ?S. \<exists>w.
        scorer (?S ! j) = Some w \<and>
        \<not> float_gt w NegInf \<and> (j < 0 \<longrightarrow> float_gt NegInf w)"
      using all_low by simp
    ultimately show ?thesis
      using that [OF run trace first _ all_low [OF first]] by blast
  next
    case moved
    have "\<forall>j < length ?S. \<exists>w.
        scorer (?S ! j) = Some w \<and>
        \<not> float_gt w (best_score st) \<and> (j < i \<longrightarrow> float_gt (best_score st) w)"
      using defined top moved(4) by blast
    with that [OF run trace moved(1,2,3)] show ?thesis by blast
  qed
qed

text \<open>
  \<^verbatim>\<open>optimize_timetable\<close> with the scoring method in exact arithmetic is the same search;
  on a validated catalog that method returns on every complete schedule and gives
  negative infinity to the empty schedule only.
\<close>

lemma optimize_timetable_exact:
  "optimize_timetable opt subjects
     = optimize_timetable_with (score_activity_combination opt) subjects"
  by (simp add: optimize_timetable_def optimize_timetable_with_def run_search_def)

lemma exact_scores_ok:
  assumes "valid_catalog subjects"
  shows "\<forall>sel \<in> set (complete_schedules subjects).
      \<exists>v. score_activity_combination opt sel = Some v \<and> (v = NegInf \<longrightarrow> sel = [])"
proof
  fix sel assume "sel \<in> set (complete_schedules subjects)"
  with assms have p: "list_all parses sel"
    by (rule complete_schedule_parses)
  from score_defined [OF p, of opt] obtain v where "score_activity_combination opt sel = Some v"
    by blast
  with score_NegInf [OF p, of opt]
  show "\<exists>v. score_activity_combination opt sel = Some v \<and> (v = NegInf \<longrightarrow> sel = [])"
    by auto
qed



text \<open>In exact arithmetic the two schedules of \<open>tie_catalog\<close> score the same.\<close>

lemma tie_catalog_exact_scores:
  "score_activity_combination (prefs 10 16 [''tue''])
     [act ''COMP1'' ''Lab'' ''01'' ''Mon'' ''20:00'' ''60'',
      act ''COMP1'' ''Lecture'' ''01'' ''Mon'' ''19:30'' ''60''] = Some (Fin (111 / 160)) \<and>
   score_activity_combination (prefs 10 16 [''tue''])
     [act ''COMP1'' ''Lab'' ''02'' ''Tue'' ''09:00'' ''60'',
      act ''COMP1'' ''Lecture'' ''01'' ''Mon'' ''19:30'' ''60''] = Some (Fin (111 / 160))"
  by code_simp

lemma length_product_lists_prod: "length (product_lists xss) = prod_list (map length xss)"
  by (simp add: length_product_lists prod_list.eq_foldr)

text \<open>
  Claim C2. On a validated catalog the schedules scored by the search are the complete
  schedules, and their number is the product of the candidate counts of all groups of
  all subjects.
\<close>

theorem scored_count_product:
  "valid_catalog subjects \<longrightarrow>
   (\<exists>st. run_search opt subjects = Some st \<and>
      scored st = complete_schedules subjects \<and>
      length (scored st) =
        prod_list (map (\<lambda>(s, g). length (candidates (tagged subjects) s g))
                     (catalog_keys (tagged subjects))))"
proof
  assume "valid_catalog subjects"
  from search_outcome [OF exact_scores_ok [OF this, of opt]] obtain st where
    "run_search opt subjects = Some st" "scored st = complete_schedules subjects"
    unfolding run_search_def by metis
  moreover have "length (complete_schedules subjects) =
      prod_list (map (\<lambda>(s, g). length (candidates (tagged subjects) s g))
                   (catalog_keys (tagged subjects)))"
    by (simp add: complete_schedules_def length_product_lists_prod catalog_groups_def comp_def
        case_prod_unfold)
  ultimately show "\<exists>st. run_search opt subjects = Some st \<and>
      scored st = complete_schedules subjects \<and>
      length (scored st) =
        prod_list (map (\<lambda>(s, g). length (candidates (tagged subjects) s g))
                     (catalog_keys (tagged subjects)))"
    by simp
qed

theorem scored_count_product_witness:
  "valid_catalog example_catalog \<and>
   (\<exists>st. run_search (prefs 8 18 [''Tue'']) example_catalog = Some st \<and> length (scored st) = 2)"
proof -
  have v: "valid_catalog example_catalog"
    by (simp add: valid_catalog_def tagged_def example_catalog_def parses_def parse_defs
        sample_defs)
  have p: "prod_list (map (\<lambda>(s, g). length (candidates (tagged example_catalog) s g))
                        (catalog_keys (tagged example_catalog))) = 2"
    by code_simp
  from scored_count_product [of example_catalog "prefs 8 18 [''Tue'']"] v
  show ?thesis unfolding p by blast
qed

text \<open>
  Claim C7. On a validated catalog every schedule scored by the search, the returned
  best among them, has one activity for each (subject code, group code) pair of the
  catalog, in the order of the pairs: as many activities as there are pairs, the
  activity at each position listed in the catalog under the subject of its pair and
  carrying the group code of its pair, the pairs being pairwise different. When every
  activity carries the code of its subject, the (subject code, group code) fields of the
  schedule are exactly the pairs of the catalog.
\<close>

theorem scored_schedules_one_per_group:
  "valid_catalog subjects \<longrightarrow>
   (\<exists>st. run_search opt subjects = Some st \<and>
      optimize_timetable opt subjects = Some (best_combination st) \<and>
      best_combination st \<in> set (scored st) \<and>
      distinct (catalog_keys (tagged subjects)) \<and>
      (\<forall>sel \<in> set (scored st).
         length sel = length (catalog_keys (tagged subjects)) \<and>
         list_all2 (\<lambda>a (s, g). (s, a) \<in> set (tagged subjects) \<and> activity_group_code a = g)
           sel (catalog_keys (tagged subjects)) \<and>
         (consistent_codes subjects \<longrightarrow>
            map (\<lambda>a. (subject_code a, activity_group_code a)) sel
              = catalog_keys (tagged subjects))))"
proof
  assume "valid_catalog subjects"
  from search_outcome [OF exact_scores_ok [OF this, of opt]] obtain st i where
    run: "run_search opt subjects = Some st" and
    trace: "scored st = complete_schedules subjects" and
    best: "i < length (complete_schedules subjects)"
      "best_combination st = complete_schedules subjects ! i"
    unfolding run_search_def by metis
  let ?T = "tagged subjects"
  have shape: "length sel = length (catalog_keys ?T) \<and>
      list_all2 (\<lambda>a (s, g). (s, a) \<in> set ?T \<and> activity_group_code a = g) sel (catalog_keys ?T) \<and>
      (consistent_codes subjects \<longrightarrow>
         map (\<lambda>a. (subject_code a, activity_group_code a)) sel = catalog_keys ?T)"
    if "sel \<in> set (scored st)" for sel
  proof -
    from that trace have sel: "sel \<in> set (complete_schedules subjects)" by simp
    note all2 = complete_schedule_shape [OF sel]
    then have len: "length sel = length (catalog_keys ?T)"
      by (rule list_all2_lengthD)
    have "map (\<lambda>a. (subject_code a, activity_group_code a)) sel = catalog_keys ?T"
      if cons: "consistent_codes subjects"
    proof (rule nth_equalityI)
      show "length (map (\<lambda>a. (subject_code a, activity_group_code a)) sel)
          = length (catalog_keys ?T)"
        using len by simp
      fix k assume "k < length (map (\<lambda>a. (subject_code a, activity_group_code a)) sel)"
      then have k: "k < length sel" by simp
      from list_all2_nthD [OF all2 k]
      have mem: "(fst (catalog_keys ?T ! k), sel ! k) \<in> set ?T"
        and grp: "activity_group_code (sel ! k) = snd (catalog_keys ?T ! k)"
        by (simp_all add: case_prod_unfold)
      from cons mem have "subject_code (sel ! k) = fst (catalog_keys ?T ! k)"
        by (auto simp add: consistent_codes_def list_all_iff)
      with grp k show "map (\<lambda>a. (subject_code a, activity_group_code a)) sel ! k
          = catalog_keys ?T ! k"
        by (simp add: prod_eq_iff)
    qed
    with len all2 show ?thesis by blast
  qed
  from best trace have "best_combination st \<in> set (scored st)"
    by simp
  with run shape distinct_catalog_keys [of ?T]
  show "\<exists>st. run_search opt subjects = Some st \<and>
      optimize_timetable opt subjects = Some (best_combination st) \<and>
      best_combination st \<in> set (scored st) \<and>
      distinct (catalog_keys (tagged subjects)) \<and>
      (\<forall>sel \<in> set (scored st).
         length sel = length (catalog_keys (tagged subjects)) \<and>
         list_all2 (\<lambda>a (s, g). (s, a) \<in> set (tagged subjects) \<and> activity_group_code a = g)
           sel (catalog_keys (tagged subjects)) \<and>
         (consistent_codes subjects \<longrightarrow>
            map (\<lambda>a. (subject_code a, activity_group_code a)) sel
              = catalog_keys (tagged subjects)))"
    unfolding optimize_timetable_def by auto
qed


theorem scored_schedules_one_per_group_witness:
  "valid_catalog example_catalog \<and> consistent_codes example_catalog \<and>
   (\<exists>st. run_search (prefs 8 18 [''Tue'']) example_catalog = Some st \<and>
      best_combination st \<in> set (scored st) \<and>
      (\<forall>sel \<in> set (scored st).
         length sel = 2 \<and>
         map (\<lambda>a. (subject_code a, activity_group_code a)) sel
           = [(''MATH1'', ''Lecture''), (''MATH1'', ''Tutorial'')]))"
proof -
  have v: "valid_catalog example_catalog"
    by (simp add: valid_catalog_def tagged_def example_catalog_def parses_def parse_defs
        sample_defs)
  have c: "consistent_codes example_catalog"
    by (simp add: consistent_codes_def tagged_def example_catalog_def sample_defs)
  have k: "catalog_keys (tagged example_catalog)
      = [(''MATH1'', ''Lecture''), (''MATH1'', ''Tutorial'')]"
    by code_simp
  from scored_schedules_one_per_group [of example_catalog "prefs 8 18 [''Tue'']"] v c
  show ?thesis unfolding k by auto
qed

text \<open>
  Claim C8. With no subjects the search scores one candidate, the empty schedule, whose
  score is negative infinity; the empty initial best is kept and returned, and the
  formatter turns it into the empty list of lines.
\<close>

theorem empty_catalog:
  "run_search opt [] = Some \<lparr>best_combination = [], best_score = NegInf, scored = [[]]\<rparr> \<and>
   score_activity_combination opt [] = Some NegInf \<and>
   optimize_timetable opt [] = Some [] \<and>
   format_output [] = [] \<and>
   optimize_timetable_lines opt [] = Some []"
  by (simp add: run_search_def search_with_def get_subject_activities_def initial_state_def
      score_activity_combination_def optimize_timetable_def format_output_def
      optimize_timetable_lines_def)

end

